theory Spec2Isabelle
  imports Main
begin

section \<open>Values, closures and the state of a TransactionDatabase\<close>

text \<open>
  The module is callback driven JavaScript on one thread: every handler runs to its end
  before the next one starts. The model is a state record, one HOL function per source
  function or closure, and a function \<open>step\<close> that maps each thing the outside world
  can do (a caller invoking a method, the connection completing a statement, a timer
  firing, the connection emitting \<open>error\<close>) to the handler the source runs for it.
  Closures are defunctionalised: a closure is a constructor holding its captured
  variables, and a function of the model interprets it with the body of the source.
  Caller supplied functions are opaque: calling one is recorded in the trace, and what
  the caller does next is a later \<open>step\<close>. Every caller callback of the source is
  invoked in tail position of its handler, so this loses no interleaving. An exception
  is recorded in the trace as well; each \<open>throw\<close> of the source, and each call that can
  throw, is the last thing its handler does, so nothing is run after it in the model
  either (the \<open>if (err)\<close> branches of the continuations given to \<open>_wait\<close> apart, which
  are never taken). The wrapped connection is taken to answer asynchronously: it calls a callback
  in a later step, never inside the call that hands it over.
\<close>

datatype jserror =
    DbFailure nat
  | AlreadyFinishedCommit
  | AlreadyFinishedRollback
  | LocksNotBalanced
  | TypeError
  | Unspecified

text \<open>An error argument: \<open>None\<close> is \<open>null\<close> or \<open>undefined\<close> (falsy), \<open>Some e\<close> an Error.\<close>

type_synonym err = "jserror option"

text \<open>
  The objects of the module: the wrapping TransactionDatabase (\<open>this\<close>/\<open>self\<close>), the wrapped
  database \<open>this.db\<close>, and the raw statements returned by \<open>db.prepare\<close>.
\<close>

datatype target = Facade | Db | Statement nat

text \<open>What reading a property gives: \<open>undefined\<close>, \<open>null\<close>, or an object.\<close>

datatype jsref = JUndefined | JNull | JObj target

text \<open>
  An argument of a method: a plain value, a string (the name of an event), a function
  of the caller, or the \<open>newCallback\<close> closure of \<open>wrapDbMethod\<close>, which captures \<open>originalCallback\<close>:
  \<open>Some f\<close> when the caller's last argument \<open>f\<close> was a function (line 119), \<open>None\<close>
  for the synthesized \<open>function(e) { if (e) transactionDatabase.db.emit("error", e); }\<close>
  (lines 123-125).
\<close>

datatype jsarg = Val nat | Fn nat | NewCallback "jsarg option" | Str string

fun isFunction :: "jsarg \<Rightarrow> bool" where
  "isFunction (Val v) = False"
| "isFunction (Fn c) = True"
| "isFunction (NewCallback orig) = True"
| "isFunction (Str s) = False"

text \<open>
  The callbacks given to \<open>beginTransaction\<close>, \<open>commit\<close> and \<open>rollback\<close>: a function
  of the caller, \<open>function() { cb(err); }\<close> of line 250 (capturing \<open>cb\<close> and the
  COMMIT error), \<open>function() {}\<close> of line 74, and anything that is not a function
  (a caller may leave the argument out; calling it throws a TypeError).
\<close>

datatype callback = User nat | CommitFailed callback jserror | Noop | NotFunction

text \<open>
  A queue item. Items are created at two places: \<open>wrapDbMethod\<close> (lines 139-144, type
  \<open>'lock'\<close> or \<open>'simple'\<close>, the raw object, the method name, the arguments) and
  \<open>beginTransaction\<close> (lines 223-228, type \<open>'transaction'\<close>, object \<open>self\<close>, method
  \<open>'beginTransaction'\<close>, the callback).
\<close>

datatype item = Item bool target string "jsarg list" | TransactionItem callback

fun item_type :: "item \<Rightarrow> string" where
  "item_type (Item locking obj m as) = (if locking then ''lock'' else ''simple'')"
| "item_type (TransactionItem cb) = ''transaction''"

text \<open>
  One activation of \<open>beginTransaction\<close> past line 230 creates the variables \<open>finished\<close>
  and \<open>callback\<close> and the closures \<open>tr.commit\<close>, \<open>tr.rollback\<close>, \<open>finishTransaction\<close>
  over them. An activation is named by its number. The continuations given to \<open>_wait\<close>
  (lines 268, 246, 259) and the callbacks given to \<open>_exec\<close> (lines 270, 248, 261):
\<close>

datatype cont = BeginK nat | CommitK nat callback | RollbackK nat callback

datatype handler = BeginH nat | CommitH nat callback | RollbackH nat callback

text \<open>
  What the module does to the outside: \<open>Stmt s l\<close> is \<open>_exec(s, ...)\<close>, with the value
  \<open>l\<close> of \<open>_lock\<close> at the call; \<open>Dispatch\<close> is \<open>object[method].apply(object, args)\<close> on
  a raw object; \<open>Called c e h\<close> is the caller's function \<open>c\<close> invoked with error \<open>e\<close>
  and, for \<open>callback(null, tr)\<close>, the handle \<open>h\<close>; \<open>Emitted\<close> is the \<open>error\<close> event
  forwarded to the listeners of the TransactionDatabase; \<open>Thrown\<close> is an exception;
  \<open>Forwarded\<close> is an event other than \<open>error\<close> passed to the listeners of the
  TransactionDatabase and of the database object.
\<close>

datatype event =
    Stmt string int
  | Dispatch target string "jsarg list"
  | Called nat err "target option"
  | Emitted jserror
  | Thrown jserror
  | Forwarded "jsarg list"

record state =
  lock :: int
  queue :: "item list"
  currentTransaction :: "target option"
  listening :: bool
  activations :: nat
  finished :: "nat \<Rightarrow> bool"
  callback_of :: "nat \<Rightarrow> callback"
  db_commit :: "nat option"
  db_rollback :: "nat option"
  timers :: "cont list"
  pending :: "(string \<times> handler) list"
  inflight :: "(target \<times> string \<times> jsarg list) list"
  trace :: "event list"
  resumed :: "(cont \<times> err \<times> int) list"

text \<open>
  \<open>lock\<close>, \<open>queue\<close>, \<open>currentTransaction\<close> are the fields of lines 57-60. \<open>listening\<close>:
  the caller has subscribed to \<open>error\<close> on the TransactionDatabase. \<open>finished n\<close> and
  \<open>callback_of n\<close> are the variables of activation \<open>n\<close>; \<open>db_commit\<close>, \<open>db_rollback\<close>
  are the properties \<open>commit\<close> and \<open>rollback\<close> of the database object (\<open>None\<close>: not
  assigned yet). \<open>timers\<close>: the \<open>check\<close> closures given to \<open>setTimeout\<close>. \<open>pending\<close>:
  the \<open>_exec\<close> calls the connection has not answered. \<open>inflight\<close>: the calls made on
  raw objects. \<open>resumed\<close> records each run of a \<open>_wait\<close> continuation: its argument
  and \<open>_lock\<close> at that moment.
\<close>

definition init :: state where
  "init = \<lparr> lock = 0, queue = [], currentTransaction = None, listening = False,
            activations = 0, finished = (\<lambda>n. False), callback_of = (\<lambda>n. NotFunction),
            db_commit = None, db_rollback = None, timers = [], pending = [],
            inflight = [], trace = [], resumed = [] \<rparr>"

definition log :: "event \<Rightarrow> state \<Rightarrow> state" where
  "log e st = st\<lparr>trace := trace st @ [e]\<rparr>"

text \<open>Calling a \<open>callback\<close> value with an error and, possibly, the handle.\<close>

fun call :: "state \<Rightarrow> callback \<Rightarrow> err \<Rightarrow> target option \<Rightarrow> state" where
  "call st (User c) e h = log (Called c e h) st"
| "call st (CommitFailed cb commit_err) e h = call st cb (Some commit_err) None"
| "call st Noop e h = st"
| "call st NotFunction e h = log (Thrown TypeError) st"

text \<open>\<open>this._exec(statement, cb)\<close>: the raw \<open>db.exec\<close>, or the caller's \<open>exec\<close>.\<close>

definition exec :: "state \<Rightarrow> string \<Rightarrow> handler \<Rightarrow> state" where
  "exec st stmt h =
     st\<lparr>pending := pending st @ [(stmt, h)], trace := trace st @ [Stmt stmt (lock st)]\<rparr>"

text \<open>\<open>object[method].apply(object, args)\<close> on a raw object.\<close>

definition dispatch :: "state \<Rightarrow> target \<Rightarrow> string \<Rightarrow> jsarg list \<Rightarrow> state" where
  "dispatch st obj m as =
     st\<lparr>inflight := inflight st @ [(obj, m, as)], trace := trace st @ [Dispatch obj m as]\<rparr>"

section \<open>\<open>_wait\<close>, \<open>_runQueue\<close>, \<open>beginTransaction\<close>\<close>

text \<open>
  \<open>check\<close> is the function of lines 162-167; \<open>run_cont\<close> runs a continuation given to
  \<open>_wait\<close> with argument \<open>err\<close>; \<open>finishTransaction\<close> is lines 237-242, \<open>runQueue\<close> lines
  179-191, \<open>beginTransaction\<close> lines 218-277. They call each other in a cycle (the
  continuation of line 268 calls \<open>finishTransaction\<close> under \<open>if (err)\<close>).
\<close>

function runQueue :: "state \<Rightarrow> state"
  and beginTransaction :: "state \<Rightarrow> callback \<Rightarrow> state"
  and check :: "state \<Rightarrow> cont \<Rightarrow> state"
  and run_cont :: "state \<Rightarrow> cont \<Rightarrow> err \<Rightarrow> state"
  and finishTransaction :: "state \<Rightarrow> nat \<Rightarrow> err \<Rightarrow> callback \<Rightarrow> state"
where
  "runQueue st =
     (case queue st of
        [] \<Rightarrow> st
      | it # rest \<Rightarrow>
          (let st1 = st\<lparr>queue := rest\<rparr>;
               st2 = (if item_type it = ''lock'' then st1\<lparr>lock := lock st1 + 1\<rparr> else st1)
           in case it of
                TransactionItem cb \<Rightarrow> beginTransaction st2 cb
              | Item locking obj m as \<Rightarrow> runQueue (dispatch st2 obj m as)))"
| "beginTransaction st cb =
     (if currentTransaction st \<noteq> None
      then st\<lparr>queue := queue st @ [TransactionItem cb]\<rparr>
      else
        (let n = activations st;
             st1 = st\<lparr>activations := Suc n,
                      finished := (finished st)(n := False),
                      callback_of := (callback_of st)(n := cb),
                      currentTransaction := Some Db,
                      db_commit := Some n,
                      db_rollback := Some n\<rparr>
         in check st1 (BeginK n)))"
| "check st k =
     (if lock st = 0 then run_cont st k None
      else st\<lparr>timers := timers st @ [k]\<rparr>)"
| "run_cont st k err =
     (let st0 = st\<lparr>resumed := resumed st @ [(k, err, lock st)]\<rparr>
      in case k of
           BeginK n \<Rightarrow>
             exec (if err \<noteq> None
                    then finishTransaction st0 n err (callback_of st0 n)
                    else st0) ''BEGIN;'' (BeginH n)
         | CommitK n cb \<Rightarrow>
             exec (if err \<noteq> None then call st0 (callback_of st0 n) err None
                    else st0) ''COMMIT;'' (CommitH n cb)
         | RollbackK n cb \<Rightarrow>
             exec (if err \<noteq> None then call st0 (callback_of st0 n) err None
                    else st0) ''ROLLBACK;'' (RollbackH n cb))"
| "finishTransaction st n e cb =
     (let st1 = st\<lparr>finished := (finished st)(n := True), currentTransaction := None\<rparr>
      in call (runQueue st1) cb e None)"
  by pat_completeness auto

text \<open>
  The recursion ends: \<open>check\<close> passes no argument to the continuation, and each round
  of the loop in \<open>runQueue\<close> shortens the queue.
\<close>

termination
  by (relation "measure (\<lambda>x. case x of
      Inl (Inl st) \<Rightarrow> 5 * length (queue st) + 8
    | Inl (Inr (st, cb)) \<Rightarrow> 5 * length (queue st) + 3
    | Inr (Inl (st, k)) \<Rightarrow> 5 * length (queue st) + 2
    | Inr (Inr (Inl (st, k, e))) \<Rightarrow> (if e = None then 0 else 5 * length (queue st) + 10)
    | Inr (Inr (Inr (st, n, e, cb))) \<Rightarrow> 5 * length (queue st) + 9)")
     (auto simp: dispatch_def)

section \<open>\<open>commit\<close>, \<open>rollback\<close> and the callbacks of \<open>_exec\<close>\<close>

text \<open>The closures \<open>tr.commit\<close> (lines 244-255) and \<open>tr.rollback\<close> (lines 257-265) of activation \<open>n\<close>.\<close>

definition commit :: "state \<Rightarrow> nat \<Rightarrow> callback \<Rightarrow> state" where
  "commit st n cb =
     (if finished st n then call st cb (Some AlreadyFinishedCommit) None
      else check st (CommitK n cb))"

definition rollback :: "state \<Rightarrow> nat \<Rightarrow> callback \<Rightarrow> state" where
  "rollback st n cb =
     (if finished st n then call st cb (Some AlreadyFinishedRollback) None
      else check st (RollbackK n cb))"

text \<open>
  \<open>obj.commit(cb)\<close> and \<open>obj.rollback(cb)\<close>: the property is read when the call is made.
  Only the database object is ever given these properties (lines 244, 257, with
  \<open>tr = self.db\<close>); calling a missing property throws a TypeError.
\<close>

fun method_commit :: "state \<Rightarrow> target \<Rightarrow> callback \<Rightarrow> state" where
  "method_commit st Db cb =
     (case db_commit st of None \<Rightarrow> log (Thrown TypeError) st | Some n \<Rightarrow> commit st n cb)"
| "method_commit st obj cb = log (Thrown TypeError) st"

fun method_rollback :: "state \<Rightarrow> target \<Rightarrow> callback \<Rightarrow> state" where
  "method_rollback st Db cb =
     (case db_rollback st of None \<Rightarrow> log (Thrown TypeError) st | Some n \<Rightarrow> rollback st n cb)"
| "method_rollback st obj cb = log (Thrown TypeError) st"

text \<open>
  The callbacks given to \<open>_exec\<close>, run when the connection answers with \<open>err\<close>: lines
  270-273 (BEGIN), 248-253 (COMMIT), 261-263 (ROLLBACK). \<open>tr\<close> is \<open>self.db\<close>.
\<close>

fun exec_done :: "state \<Rightarrow> handler \<Rightarrow> err \<Rightarrow> state" where
  "exec_done st (BeginH n) err =
     (if err \<noteq> None then call st (callback_of st n) err None
      else call st (callback_of st n) None (Some Db))"
| "exec_done st (CommitH n cb) err =
     (case err of
        Some e \<Rightarrow> method_rollback st Db (CommitFailed cb e)
      | None \<Rightarrow> finishTransaction st n None cb)"
| "exec_done st (RollbackH n cb) err = finishTransaction st n err cb"

section \<open>The \<open>error\<close> event\<close>

text \<open>
  Reading \<open>obj.currentTransaction\<close>. The module assigns this property on the
  TransactionDatabase only (lines 60, 235, 239), so on the database object and on a
  statement it is \<open>undefined\<close>.
\<close>

fun get_currentTransaction :: "state \<Rightarrow> target \<Rightarrow> jsref" where
  "get_currentTransaction st Facade =
     (case currentTransaction st of None \<Rightarrow> JNull | Some t \<Rightarrow> JObj t)"
| "get_currentTransaction st Db = JUndefined"
| "get_currentTransaction st (Statement i) = JUndefined"

text \<open>
  The listener of lines 72-75, called with \<open>this\<close>. \<open>_.isNull\<close> is true of \<open>null\<close>
  only; \<open>undefined.rollback\<close> throws a TypeError.
\<close>

definition error_listener :: "state \<Rightarrow> target \<Rightarrow> state" where
  "error_listener st this =
     (case get_currentTransaction st this of
        JNull \<Rightarrow> st
      | JUndefined \<Rightarrow> log (Thrown TypeError) st
      | JObj t \<Rightarrow> method_rollback st t Noop)"

text \<open>
  \<open>db.emit("error", e)\<close>, where \<open>emit\<close> is the function \<open>interceptEmit\<close> installed on
  the database object (lines 151-157, from line 99). First \<open>handler\<close>, the \<open>emit\<close> of
  the TransactionDatabase: an EventEmitter with no listener for \<open>error\<close> throws the
  error, and line 155 is not reached. Then \<open>oldEmit.apply(emitter, arguments)\<close>: the
  EventEmitter calls the listener of line 72 with \<open>this\<close> the emitter, the database
  object.
\<close>

definition emit_error :: "state \<Rightarrow> jserror \<Rightarrow> state" where
  "emit_error st e =
     (if listening st then error_listener (log (Emitted e) st) Db
      else log (Thrown e) st)"

text \<open>
  The error given with an \<open>error\<close> event that a caller emits: \<open>Val n\<close> stands for the
  error \<open>n\<close>; anything else is no error object (an EventEmitter without listener then
  throws an unspecified error).
\<close>

fun error_arg :: "jsarg list \<Rightarrow> jserror" where
  "error_arg (Val n # as) = DbFailure n"
| "error_arg as = Unspecified"

text \<open>
  \<open>db.emit(...)\<close> with the arguments \<open>as\<close>: the function of lines 153-156 again. For the
  event \<open>error\<close> it is \<open>emit_error\<close>. For any other event the \<open>emit\<close> of the
  TransactionDatabase calls the caller's listeners of that event and the old \<open>emit\<close>
  those of the database object; the module has no listener of its own there.
\<close>

definition emit :: "state \<Rightarrow> jsarg list \<Rightarrow> state" where
  "emit st as =
     (case as of
        Str ev # rest \<Rightarrow>
          if ev = ''error'' then emit_error st (error_arg rest) else log (Forwarded as) st
      | _ \<Rightarrow> log (Forwarded as) st)"

section \<open>\<open>wrapDbMethod\<close>\<close>

definition prohibitedMethods :: "string list" where
  "prohibitedMethods =
     [''emit'', ''addListener'', ''setMaxListeners'', ''on'', ''once'', ''removeListener'',
      ''removeAllListeners'', ''listeners'', ''prepare'']"

definition lockMethods :: "string list" where
  "lockMethods =
     [''exec'', ''run'', ''get'', ''all'', ''each'', ''map'', ''finalize'', ''reset'']"

text \<open>Lines 118-128: the last argument is replaced by \<open>newCallback\<close>, or \<open>newCallback\<close> is appended.\<close>

definition hijack :: "jsarg list \<Rightarrow> jsarg list" where
  "hijack as =
     (if length as > 0 \<and> isFunction (last as)
      then butlast as @ [NewCallback (Some (last as))]
      else as @ [NewCallback None])"

text \<open>The function returned by \<open>wrapDbMethod(transactionDatabase, object, method)\<close>, called with \<open>as\<close>.\<close>

definition wrapDbMethod :: "state \<Rightarrow> target \<Rightarrow> string \<Rightarrow> jsarg list \<Rightarrow> state" where
  "wrapDbMethod st obj m as =
     (let locking = (m \<in> set lockMethods);
          args = (if locking then hijack as else as)
      in if currentTransaction st = None
         then dispatch (if locking then st\<lparr>lock := lock st + 1\<rparr> else st) obj m args
         else st\<lparr>queue := queue st @ [Item locking obj m args]\<rparr>)"

text \<open>
  A raw object calls the function \<open>f\<close> it was given, with error \<open>e\<close>. For
  \<open>newCallback\<close> this is lines 112-116, then \<open>originalCallback\<close>.
\<close>

fun invoke :: "state \<Rightarrow> jsarg \<Rightarrow> err \<Rightarrow> state" where
  "invoke st (Val v) e = st"
| "invoke st (Fn c) e = log (Called c e None) st"
| "invoke st (NewCallback orig) e =
     (if lock st < 1 then log (Thrown LocksNotBalanced) st
      else
        (let st1 = st\<lparr>lock := lock st - 1\<rparr>
         in case orig of
              Some f \<Rightarrow> invoke st1 f e
            | None \<Rightarrow> (case e of None \<Rightarrow> st1 | Some er \<Rightarrow> emit_error st1 er)))"
| "invoke st (Str s) e = st"

section \<open>What the outside world does\<close>

text \<open>
  \<open>Wrapped obj m as\<close>: a caller calls method \<open>m\<close> of the TransactionDatabase (\<open>obj = Db\<close>,
  the raw object behind it) or of a statement wrapper returned by \<open>prepare\<close>.
  \<open>BeginTransaction as\<close>: \<open>beginTransaction\<close> of the TransactionDatabase.
  \<open>Handle m as\<close>: a caller calls method \<open>m\<close> of the transaction handle.
  \<open>ExecDone i e\<close>: the connection answers the \<open>i\<close>-th pending \<open>_exec\<close> with \<open>e\<close>.
  \<open>OpDone i e\<close>: a raw object calls the last argument of its \<open>i\<close>-th call with \<open>e\<close>.
  \<open>Tick i\<close>: the \<open>i\<close>-th timer fires. \<open>ErrorEvent e\<close>: the connection emits
  \<open>error\<close>. \<open>Listen\<close>: a caller subscribes to \<open>error\<close> on the TransactionDatabase.
  The outside world is not restricted further: statements may be answered and timers
  may fire in any order, and a raw object may call a callback any number of times.
  \<open>wrapObject\<close> wraps the methods that the raw object has when it runs, except those
  named in \<open>prohibitedMethods\<close>; these are the event methods of the TransactionDatabase
  itself and \<open>prepare\<close>, which do not touch the state modelled here. No raw object has a
  \<open>commit\<close> or \<open>rollback\<close> at that moment (the constructor runs before any
  \<open>beginTransaction\<close>, and statements are never given them), so no wrapper has one and
  calling it throws a TypeError. For every other name \<open>Wrapped obj m as\<close> stands for a
  method that the raw object has.
\<close>

datatype action =
    Wrapped target string "jsarg list"
  | BeginTransaction "jsarg list"
  | Handle string "jsarg list"
  | ExecDone nat err
  | OpDone nat err
  | Tick nat
  | ErrorEvent jserror
  | Listen

text \<open>The first argument, as the callback parameter of \<open>beginTransaction\<close>, \<open>commit\<close>, \<open>rollback\<close>.\<close>

fun first_arg :: "jsarg list \<Rightarrow> callback" where
  "first_arg (Fn c # as) = User c"
| "first_arg as = NotFunction"

text \<open>
  A method of the handle: the handle is the database object, whose own methods are the
  raw ones (\<open>wrapObject\<close> assigns the wrappers to \<open>target\<close>, never to \<open>source\<close>), with
  \<open>commit\<close> and \<open>rollback\<close> assigned by \<open>beginTransaction\<close> (lines 244, 257) and \<open>emit\<close>
  replaced by \<open>interceptEmit\<close> when the TransactionDatabase is made (line 99).
\<close>

definition handle_call :: "state \<Rightarrow> string \<Rightarrow> jsarg list \<Rightarrow> state" where
  "handle_call st m as =
     (if m = ''commit'' then method_commit st Db (first_arg as)
      else if m = ''rollback'' then method_rollback st Db (first_arg as)
      else if m = ''emit'' then emit st as
      else dispatch st Db m as)"

definition remove_nth :: "nat \<Rightarrow> 'a list \<Rightarrow> 'a list" where
  "remove_nth i xs = take i xs @ drop (Suc i) xs"

fun step :: "state \<Rightarrow> action \<Rightarrow> state" where
  "step st (Wrapped obj m as) =
     (if m \<in> set prohibitedMethods then st
      else if m = ''commit'' \<or> m = ''rollback'' then log (Thrown TypeError) st
      else wrapDbMethod st obj m as)"
| "step st (BeginTransaction as) = beginTransaction st (first_arg as)"
| "step st (Handle m as) = handle_call st m as"
| "step st (ExecDone i e) =
     (if i < length (pending st)
      then exec_done (st\<lparr>pending := remove_nth i (pending st)\<rparr>) (snd (pending st ! i)) e
      else st)"
| "step st (OpDone i e) =
     (if i < length (inflight st)
      then (case inflight st ! i of
              (obj, m, as) \<Rightarrow>
                if length as > 0 \<and> isFunction (last as) then invoke st (last as) e else st)
      else st)"
| "step st (Tick i) =
     (if i < length (timers st)
      then check (st\<lparr>timers := remove_nth i (timers st)\<rparr>) (timers st ! i)
      else st)"
| "step st (ErrorEvent e) = emit_error st e"
| "step st Listen = st\<lparr>listening := True\<rparr>"

text \<open>The state after a sequence of actions on a fresh TransactionDatabase.\<close>

definition run :: "action list \<Rightarrow> state" where
  "run acts = foldl step init acts"

section \<open>What a drain of the queue amounts to\<close>





section \<open>An invariant of every run\<close>

text \<open>
  Every statement was issued, and every continuation of \<open>_wait\<close> was run, with the lock
  counter at zero and no error argument; the only handle ever passed to a caller is the
  database object; \<open>currentTransaction\<close> is \<open>null\<close> or the database object.
\<close>

definition gate_inv :: "state \<Rightarrow> bool" where
  "gate_inv st \<longleftrightarrow>
     (\<forall>s l. Stmt s l \<in> set (trace st) \<longrightarrow> l = 0)
   \<and> (\<forall>k e l. (k, e, l) \<in> set (resumed st) \<longrightarrow> e = None \<and> l = 0)
   \<and> (\<forall>c e h. Called c e (Some h) \<in> set (trace st) \<longrightarrow> h = Db)
   \<and> (currentTransaction st = None \<or> currentTransaction st = Some Db)"

section \<open>Which transaction is registered\<close>

text \<open>
  The activation that a continuation or a callback of \<open>_exec\<close> belongs to, and the fields
  that say which transaction is registered and whose closures the handle carries.
\<close>

fun cont_activation :: "cont \<Rightarrow> nat" where
  "cont_activation (BeginK n) = n"
| "cont_activation (CommitK n cb) = n"
| "cont_activation (RollbackK n cb) = n"

fun handler_activation :: "handler \<Rightarrow> nat" where
  "handler_activation (BeginH n) = n"
| "handler_activation (CommitH n cb) = n"
| "handler_activation (RollbackH n cb) = n"

definition registry ::
  "state \<Rightarrow> target option \<times> nat \<times> (nat \<Rightarrow> bool) \<times> nat option \<times> nat option" where
  "registry st =
     (currentTransaction st, activations st, finished st, db_commit st, db_rollback st)"

text \<open>
  In every run: while \<open>currentTransaction\<close> is set, the most recent activation is not
  finished; \<open>commit\<close> and \<open>rollback\<close> on the handle are the closures of the most recent
  activation; every waiting continuation and every pending callback belongs to an
  activation that exists.
\<close>

definition reg_inv :: "state \<Rightarrow> bool" where
  "reg_inv st \<longleftrightarrow>
     (currentTransaction st \<noteq> None \<longrightarrow>
        0 < activations st \<and> \<not> finished st (activations st - 1))
   \<and> (\<forall>n. (db_commit st = Some n) = (activations st = Suc n))
   \<and> (\<forall>n. (db_rollback st = Some n) = (activations st = Suc n))
   \<and> (\<forall>p \<in> set (pending st). handler_activation (snd p) < activations st)
   \<and> (\<forall>k \<in> set (timers st). cont_activation k < activations st)"

section \<open>Basic facts\<close>

declare runQueue.simps [simp del] beginTransaction.simps [simp del] check.simps [simp del]
  run_cont.simps [simp del] finishTransaction.simps [simp del]
  method_commit.simps [simp del] method_rollback.simps [simp del]

lemmas eval_defs =
  run_def init_def log_def exec_def dispatch_def commit_def rollback_def
  error_listener_def emit_error_def emit_def prohibitedMethods_def lockMethods_def hijack_def
  wrapDbMethod_def handle_call_def remove_nth_def Let_def
  runQueue.simps beginTransaction.simps check.simps run_cont.simps finishTransaction.simps
  method_commit.simps method_rollback.simps

lemma run_cont_None:
  "run_cont st k None =
     (case k of
        BeginK n \<Rightarrow> exec (st\<lparr>resumed := resumed st @ [(k, None, lock st)]\<rparr>) ''BEGIN;'' (BeginH n)
      | CommitK n cb \<Rightarrow> exec (st\<lparr>resumed := resumed st @ [(k, None, lock st)]\<rparr>) ''COMMIT;'' (CommitH n cb)
      | RollbackK n cb \<Rightarrow> exec (st\<lparr>resumed := resumed st @ [(k, None, lock st)]\<rparr>) ''ROLLBACK;'' (RollbackH n cb))"
  by (simp add: run_cont.simps Let_def split: cont.splits)

lemma gate_inv_check: "gate_inv st \<Longrightarrow> gate_inv (check st k)"
  by (auto simp: gate_inv_def check.simps run_cont_None exec_def split: cont.splits)

lemma gate_inv_beginTransaction: "gate_inv st \<Longrightarrow> gate_inv (beginTransaction st cb)"
proof -
  assume a: "gate_inv st"
  show ?thesis
  proof (cases "currentTransaction st \<noteq> None")
    case True
    with a show ?thesis by (simp add: beginTransaction.simps gate_inv_def)
  next
    case False
    have "gate_inv (st\<lparr>activations := Suc (activations st),
                      finished := (finished st)(activations st := False),
                      callback_of := (callback_of st)(activations st := cb),
                      currentTransaction := Some Db,
                      db_commit := Some (activations st),
                      db_rollback := Some (activations st)\<rparr>)"
      using a by (simp add: gate_inv_def)
    then show ?thesis
      using False by (simp add: beginTransaction.simps Let_def gate_inv_check)
  qed
qed


lemma runQueue_Nil: "queue st = [] \<Longrightarrow> runQueue st = st"
  by (subst runQueue.simps) simp

lemma runQueue_Item:
  "queue st = Item locking obj m as # rest \<Longrightarrow>
   runQueue st = runQueue (dispatch (if locking then st\<lparr>queue := rest, lock := lock st + 1\<rparr>
                                     else st\<lparr>queue := rest\<rparr>) obj m as)"
  by (subst runQueue.simps) (simp add: Let_def)

lemma runQueue_TransactionItem:
  "queue st = TransactionItem cb # rest \<Longrightarrow>
   runQueue st = beginTransaction (st\<lparr>queue := rest\<rparr>) cb"
  by (subst runQueue.simps) (simp add: Let_def)

lemma gate_inv_runQueue: "gate_inv st \<Longrightarrow> gate_inv (runQueue st)"
proof (induction "queue st" arbitrary: st)
  case Nil
  then show ?case by (simp add: runQueue_Nil)
next
  case (Cons it rest)
  show ?case
  proof (cases it)
    case (Item locking obj m as)
    let ?st2 = "dispatch (if locking then st\<lparr>queue := rest, lock := lock st + 1\<rparr> else st\<lparr>queue := rest\<rparr>) obj m as"
    have q: "rest = queue ?st2" by (simp add: dispatch_def)
    have g: "gate_inv ?st2" using Cons.prems by (simp add: gate_inv_def dispatch_def)
    have e: "runQueue st = runQueue ?st2"
      using Cons.hyps(2) Item by (intro runQueue_Item) simp
    show ?thesis unfolding e by (rule Cons.hyps(1)[OF q g])
  next
    case (TransactionItem cb)
    have e: "runQueue st = beginTransaction (st\<lparr>queue := rest\<rparr>) cb"
      using Cons.hyps(2) TransactionItem by (intro runQueue_TransactionItem) simp
    have "gate_inv (st\<lparr>queue := rest\<rparr>)" using Cons.prems by (simp add: gate_inv_def)
    then show ?thesis unfolding e by (rule gate_inv_beginTransaction)
  qed
qed

lemma gate_inv_log:
  "gate_inv st \<Longrightarrow> gate_inv (log (Thrown x) st)"
  "gate_inv st \<Longrightarrow> gate_inv (log (Emitted x) st)"
  "gate_inv st \<Longrightarrow> gate_inv (log (Called c e None) st)"
  "gate_inv st \<Longrightarrow> gate_inv (log (Called c e (Some Db)) st)"
  "gate_inv st \<Longrightarrow> gate_inv (log (Forwarded as) st)"
  by (auto simp: gate_inv_def log_def)

lemma gate_inv_call_gen:
  "gate_inv st \<Longrightarrow> h = None \<or> h = Some Db \<Longrightarrow> gate_inv (call st cb e h)"
proof (induction cb arbitrary: e h)
  case (User c)
  then show ?case by (auto simp: gate_inv_log)
next
  case (CommitFailed cb x)
  show ?case using CommitFailed.IH [OF CommitFailed.prems(1), of None "Some x"] by simp
next
  case Noop
  then show ?case by simp
next
  case NotFunction
  then show ?case by (simp add: gate_inv_log)
qed

lemma gate_inv_call: "gate_inv st \<Longrightarrow> gate_inv (call st cb e None)"
  by (simp add: gate_inv_call_gen)

lemma gate_inv_call_Db: "gate_inv st \<Longrightarrow> gate_inv (call st cb e (Some Db))"
  by (simp add: gate_inv_call_gen)

lemma gate_inv_finishTransaction: "gate_inv st \<Longrightarrow> gate_inv (finishTransaction st n e cb)"
proof -
  assume a: "gate_inv st"
  have "gate_inv (st\<lparr>finished := (finished st)(n := True), currentTransaction := None\<rparr>)"
    using a by (simp add: gate_inv_def)
  then show ?thesis
    by (simp add: finishTransaction.simps Let_def gate_inv_runQueue gate_inv_call)
qed

lemma gate_inv_commit: "gate_inv st \<Longrightarrow> gate_inv (commit st n cb)"
  by (simp add: commit_def gate_inv_call gate_inv_check)

lemma gate_inv_rollback: "gate_inv st \<Longrightarrow> gate_inv (rollback st n cb)"
  by (simp add: rollback_def gate_inv_call gate_inv_check)

lemma gate_inv_method_commit: "gate_inv st \<Longrightarrow> gate_inv (method_commit st obj cb)"
  by (cases obj; cases "db_commit st") (simp_all add: gate_inv_commit gate_inv_log method_commit.simps)

lemma gate_inv_method_rollback: "gate_inv st \<Longrightarrow> gate_inv (method_rollback st obj cb)"
  by (cases obj; cases "db_rollback st") (simp_all add: gate_inv_rollback gate_inv_log method_rollback.simps)

lemma gate_inv_exec_done: "gate_inv st \<Longrightarrow> gate_inv (exec_done st h e)"
  by (cases h; cases e) (simp_all add: gate_inv_call gate_inv_call_Db gate_inv_method_rollback
      gate_inv_finishTransaction)

lemma gate_inv_error_listener: "gate_inv st \<Longrightarrow> gate_inv (error_listener st this)"
  by (cases "get_currentTransaction st this") (simp_all add: error_listener_def gate_inv_log gate_inv_method_rollback)

lemma gate_inv_emit_error: "gate_inv st \<Longrightarrow> gate_inv (emit_error st e)"
  by (simp add: emit_error_def gate_inv_log gate_inv_error_listener)

lemma gate_inv_emit: "gate_inv st \<Longrightarrow> gate_inv (emit st as)"
  by (simp add: emit_def gate_inv_log gate_inv_emit_error split: list.splits jsarg.splits)

lemma gate_inv_invoke: "gate_inv st \<Longrightarrow> gate_inv (invoke st f e)"
proof (induction st f e rule: invoke.induct)
  case (1 st v e)
  then show ?case by simp
next
  case (2 st c e)
  then show ?case by (simp add: gate_inv_log)
next
  case (3 st orig e)
  have g: "gate_inv (st\<lparr>lock := lock st - 1\<rparr>)" using "3.prems" by (simp add: gate_inv_def)
  show ?case
  proof (cases "lock st < 1")
    case True
    then show ?thesis using "3.prems" by (simp add: gate_inv_log)
  next
    case False
    show ?thesis
    proof (cases orig)
      case None
      then show ?thesis using False g by (cases e) (simp_all add: gate_inv_emit_error)
    next
      case (Some f)
      then show ?thesis using False g "3.IH"[OF False refl Some g] by simp
    qed
  qed
next
  case (4 st s e)
  then show ?case by simp
qed

lemma gate_inv_wrapDbMethod: "gate_inv st \<Longrightarrow> gate_inv (wrapDbMethod st obj m as)"
  by (auto simp: wrapDbMethod_def Let_def dispatch_def gate_inv_def)

lemma gate_inv_dispatch: "gate_inv st \<Longrightarrow> gate_inv (dispatch st obj m as)"
  by (auto simp: dispatch_def gate_inv_def)

lemma gate_inv_handle_call: "gate_inv st \<Longrightarrow> gate_inv (handle_call st m as)"
  by (simp add: handle_call_def gate_inv_method_commit gate_inv_method_rollback gate_inv_dispatch
      gate_inv_emit)

lemma gate_inv_step: "gate_inv st \<Longrightarrow> gate_inv (step st a)"
proof (cases a)
  case (ExecDone i e)
  assume a: "gate_inv st"
  have "gate_inv (st\<lparr>pending := remove_nth i (pending st)\<rparr>)" using a by (simp add: gate_inv_def)
  then show ?thesis using a ExecDone by (simp add: gate_inv_exec_done)
next
  case (Tick i)
  assume a: "gate_inv st"
  have "gate_inv (st\<lparr>timers := remove_nth i (timers st)\<rparr>)" using a by (simp add: gate_inv_def)
  then show ?thesis using a Tick by (simp add: gate_inv_check)
next
  case Listen
  assume a: "gate_inv st"
  then show ?thesis using Listen by (simp add: gate_inv_def)
qed (simp_all add: gate_inv_wrapDbMethod gate_inv_beginTransaction gate_inv_handle_call
       gate_inv_invoke gate_inv_emit_error gate_inv_log split: prod.splits)

lemma gate_inv_run: "gate_inv (run acts)"
proof (induction acts rule: rev_induct)
  case Nil
  then show ?case by (simp add: run_def init_def gate_inv_def)
next
  case (snoc a acts)
  then show ?case by (simp add: run_def gate_inv_step)
qed



text \<open>What \<open>check\<close> does, without recursion, and the fields that the functions leave alone.\<close>

lemma check_eq:
  "check st k =
     (if lock st = 0
      then st\<lparr>pending := pending st @
                 [(case k of BeginK n \<Rightarrow> (''BEGIN;'', BeginH n)
                          | CommitK n cb \<Rightarrow> (''COMMIT;'', CommitH n cb)
                          | RollbackK n cb \<Rightarrow> (''ROLLBACK;'', RollbackH n cb))],
              trace := trace st @
                 [Stmt (case k of BeginK n \<Rightarrow> ''BEGIN;'' | CommitK n cb \<Rightarrow> ''COMMIT;''
                               | RollbackK n cb \<Rightarrow> ''ROLLBACK;'') 0],
              resumed := resumed st @ [(k, None, 0)]\<rparr>
      else st\<lparr>timers := timers st @ [k]\<rparr>)"
  by (cases k) (simp_all add: check.simps run_cont_None exec_def)

lemma registry_fields:
  "registry a = registry b \<Longrightarrow>
     currentTransaction a = currentTransaction b \<and> activations a = activations b
   \<and> finished a = finished b \<and> db_commit a = db_commit b \<and> db_rollback a = db_rollback b"
  by (simp add: registry_def)

lemma call_only_trace: "call st cb e h = st\<lparr>trace := trace (call st cb e h)\<rparr>"
  by (induction cb arbitrary: e h) (simp_all add: log_def)

lemma registry_check: "registry (check st k) = registry st"
  by (simp add: check_eq registry_def)

lemma registry_call: "registry (call st cb e h) = registry st"
  by (subst call_only_trace) (simp add: registry_def)



lemma registry_log: "registry (log ev st) = registry st"
  by (simp add: log_def registry_def)



lemma registry_emit_error: "registry (emit_error st e) = registry st"
  by (simp add: emit_error_def error_listener_def registry_log)


lemma registry_invoke: "registry (invoke st f e) = registry st"
proof (induction st f e rule: invoke.induct)
  case (3 st orig e)
  have d: "registry (st\<lparr>lock := lock st - 1\<rparr>) = registry st" by (simp add: registry_def)
  show ?case
  proof (cases "lock st < 1")
    case True
    then show ?thesis by (simp add: registry_log)
  next
    case False
    show ?thesis
    proof (cases orig)
      case None
      then show ?thesis using False d by (cases e) (simp_all add: registry_emit_error)
    next
      case (Some f)
      then show ?thesis using False d "3.IH" [OF False refl Some] by simp
    qed
  qed
qed (simp_all add: registry_log)




lemma reg_inv_frame:
  "registry b = registry a \<Longrightarrow> pending b = pending a \<Longrightarrow> timers b = timers a \<Longrightarrow>
   reg_inv b = reg_inv a"
  by (simp add: reg_inv_def registry_def)

lemma reg_inv_log: "reg_inv (log ev st) = reg_inv st"
  by (simp add: reg_inv_def log_def)

lemma reg_inv_call: "reg_inv (call st cb e h) = reg_inv st"
  by (subst call_only_trace) (simp add: reg_inv_def)

lemma reg_inv_check:
  "reg_inv st \<Longrightarrow> cont_activation k < activations st \<Longrightarrow> reg_inv (check st k)"
  by (cases k) (auto simp: check_eq reg_inv_def)

lemma reg_inv_commit:
  "reg_inv st \<Longrightarrow> n < activations st \<Longrightarrow> reg_inv (commit st n cb)"
  by (simp add: commit_def reg_inv_call reg_inv_check)

lemma reg_inv_rollback:
  "reg_inv st \<Longrightarrow> n < activations st \<Longrightarrow> reg_inv (rollback st n cb)"
  by (simp add: rollback_def reg_inv_call reg_inv_check)

lemma reg_inv_method_commit: "reg_inv st \<Longrightarrow> reg_inv (method_commit st obj cb)"
proof (cases obj)
  case Db
  assume a: "reg_inv st"
  show ?thesis
  proof (cases "db_commit st")
    case None
    then show ?thesis using a Db by (simp add: method_commit.simps reg_inv_log)
  next
    case (Some n)
    then have "activations st = Suc n" using a unfolding reg_inv_def by blast
    then have "n < activations st" by simp
    then show ?thesis using a Db Some by (simp add: method_commit.simps reg_inv_commit)
  qed
qed (simp_all add: method_commit.simps reg_inv_log)

lemma reg_inv_method_rollback: "reg_inv st \<Longrightarrow> reg_inv (method_rollback st obj cb)"
proof (cases obj)
  case Db
  assume a: "reg_inv st"
  show ?thesis
  proof (cases "db_rollback st")
    case None
    then show ?thesis using a Db by (simp add: method_rollback.simps reg_inv_log)
  next
    case (Some n)
    then have "activations st = Suc n" using a unfolding reg_inv_def by blast
    then have "n < activations st" by simp
    then show ?thesis using a Db Some by (simp add: method_rollback.simps reg_inv_rollback)
  qed
qed (simp_all add: method_rollback.simps reg_inv_log)

lemma reg_inv_emit_error: "reg_inv (emit_error st e) = reg_inv st"
  by (simp add: emit_error_def error_listener_def reg_inv_log)

lemma reg_inv_emit: "reg_inv (emit st as) = reg_inv st"
  by (simp add: emit_def reg_inv_emit_error reg_inv_log split: list.splits jsarg.splits)

lemma invoke_frame:
  "pending (invoke st f e) = pending st \<and> timers (invoke st f e) = timers st"
proof (induction st f e rule: invoke.induct)
  case (3 st orig e)
  show ?case
  proof (cases "lock st < 1")
    case True
    then show ?thesis by (simp add: log_def)
  next
    case False
    show ?thesis
    proof (cases orig)
      case None
      then show ?thesis using False
        by (cases e) (simp_all add: emit_error_def error_listener_def log_def Let_def)
    next
      case (Some f)
      then show ?thesis using False "3.IH" [OF False refl Some] by simp
    qed
  qed
qed (simp_all add: log_def)

lemma reg_inv_invoke: "reg_inv (invoke st f e) = reg_inv st"
  by (rule reg_inv_frame) (simp_all add: registry_invoke invoke_frame)

lemma reg_inv_dispatch: "reg_inv (dispatch st obj m as) = reg_inv st"
  by (simp add: reg_inv_def dispatch_def)

lemma reg_inv_wrapDbMethod: "reg_inv (wrapDbMethod st obj m as) = reg_inv st"
  by (simp add: wrapDbMethod_def Let_def dispatch_def reg_inv_def)

lemma reg_inv_handle_call: "reg_inv st \<Longrightarrow> reg_inv (handle_call st m as)"
  by (simp add: handle_call_def reg_inv_method_commit reg_inv_method_rollback reg_inv_emit
      reg_inv_dispatch)

lemma reg_inv_beginTransaction: "reg_inv st \<Longrightarrow> reg_inv (beginTransaction st cb)"
proof (cases "currentTransaction st \<noteq> None")
  case True
  assume "reg_inv st"
  then show ?thesis using True by (simp add: beginTransaction.simps reg_inv_def)
next
  case False
  assume a: "reg_inv st"
  let ?st1 = "st\<lparr>activations := Suc (activations st),
                  finished := (finished st)(activations st := False),
                  callback_of := (callback_of st)(activations st := cb),
                  currentTransaction := Some Db,
                  db_commit := Some (activations st),
                  db_rollback := Some (activations st)\<rparr>"
  have "reg_inv ?st1" using a by (auto simp: reg_inv_def less_Suc_eq)
  moreover have "cont_activation (BeginK (activations st)) < activations ?st1" by simp
  ultimately have "reg_inv (check ?st1 (BeginK (activations st)))" by (rule reg_inv_check)
  then show ?thesis using False by (simp add: beginTransaction.simps Let_def)
qed

lemma reg_inv_runQueue: "reg_inv st \<Longrightarrow> reg_inv (runQueue st)"
proof (induction "queue st" arbitrary: st)
  case Nil
  then show ?case by (simp add: runQueue_Nil)
next
  case (Cons it rest)
  show ?case
  proof (cases it)
    case (Item locking obj m as)
    let ?st2 = "dispatch (if locking then st\<lparr>queue := rest, lock := lock st + 1\<rparr> else st\<lparr>queue := rest\<rparr>) obj m as"
    have q: "rest = queue ?st2" by (simp add: dispatch_def)
    have g: "reg_inv ?st2" using Cons.prems by (simp add: reg_inv_def dispatch_def)
    have e: "runQueue st = runQueue ?st2"
      using Cons.hyps(2) Item by (intro runQueue_Item) simp
    show ?thesis unfolding e by (rule Cons.hyps(1) [OF q g])
  next
    case (TransactionItem cb)
    have e: "runQueue st = beginTransaction (st\<lparr>queue := rest\<rparr>) cb"
      using Cons.hyps(2) TransactionItem by (intro runQueue_TransactionItem) simp
    have "reg_inv (st\<lparr>queue := rest\<rparr>)" using Cons.prems by (simp add: reg_inv_def)
    then show ?thesis unfolding e by (rule reg_inv_beginTransaction)
  qed
qed

lemma reg_inv_finishTransaction: "reg_inv st \<Longrightarrow> reg_inv (finishTransaction st n e cb)"
proof -
  assume a: "reg_inv st"
  have "reg_inv (st\<lparr>finished := (finished st)(n := True), currentTransaction := None\<rparr>)"
    using a by (simp add: reg_inv_def)
  then show ?thesis
    by (simp add: finishTransaction.simps Let_def reg_inv_runQueue reg_inv_call)
qed

lemma reg_inv_exec_done: "reg_inv st \<Longrightarrow> reg_inv (exec_done st h e)"
  by (cases h; cases e)
     (simp_all add: reg_inv_call reg_inv_method_rollback reg_inv_finishTransaction)

lemma set_remove_nth: "set (remove_nth i xs) \<subseteq> set xs"
  by (auto simp: remove_nth_def dest: in_set_takeD in_set_dropD)

lemma reg_inv_step: "reg_inv st \<Longrightarrow> reg_inv (step st a)"
proof (cases a)
  case (ExecDone i e)
  assume a: "reg_inv st"
  have "reg_inv (st\<lparr>pending := remove_nth i (pending st)\<rparr>)"
    using a set_remove_nth [of i "pending st"] by (auto simp: reg_inv_def)
  then show ?thesis using a ExecDone by (simp add: reg_inv_exec_done)
next
  case (Tick i)
  assume a: "reg_inv st"
  show ?thesis
  proof (cases "i < length (timers st)")
    case True
    have g: "reg_inv (st\<lparr>timers := remove_nth i (timers st)\<rparr>)"
      using a set_remove_nth [of i "timers st"] by (auto simp: reg_inv_def)
    have "cont_activation (timers st ! i) < activations st"
      using a True by (simp add: reg_inv_def)
    then have "reg_inv (check (st\<lparr>timers := remove_nth i (timers st)\<rparr>) (timers st ! i))"
      using g by (intro reg_inv_check) simp_all
    then show ?thesis using Tick True by simp
  next
    case False
    then show ?thesis using a Tick by simp
  qed
next
  case Listen
  assume a: "reg_inv st"
  then show ?thesis using Listen by (simp add: reg_inv_def)
qed (simp_all add: reg_inv_wrapDbMethod reg_inv_beginTransaction reg_inv_handle_call
       reg_inv_invoke reg_inv_emit_error reg_inv_log split: prod.splits)

lemma reg_inv_run: "reg_inv (run acts)"
proof (induction acts rule: rev_induct)
  case Nil
  then show ?case by (simp add: run_def init_def reg_inv_def)
next
  case (snoc a acts)
  then show ?case by (simp add: run_def reg_inv_step)
qed

lemma frame_check:
  "currentTransaction (check st k) = currentTransaction st"
  "activations (check st k) = activations st"
  "finished (check st k) = finished st"
  using registry_fields [OF registry_check, of st k] by simp_all

lemma frame_call:
  "currentTransaction (call st cb e h) = currentTransaction st"
  "activations (call st cb e h) = activations st"
  "finished (call st cb e h) = finished st"
  using registry_fields [OF registry_call, of st cb e h] by simp_all









lemma finished_beginTransaction:
  "n < activations st \<Longrightarrow> finished (beginTransaction st cb) n = finished st n"
  by (simp add: beginTransaction.simps Let_def frame_check)



lemma finished_runQueue:
  "n < activations st \<Longrightarrow> finished (runQueue st) n = finished st n"
proof (induction "queue st" arbitrary: st)
  case Nil
  then show ?case by (simp add: runQueue_Nil)
next
  case (Cons it rest)
  show ?case
  proof (cases it)
    case (Item locking obj m as)
    let ?st2 = "dispatch (if locking then st\<lparr>queue := rest, lock := lock st + 1\<rparr> else st\<lparr>queue := rest\<rparr>) obj m as"
    have q: "rest = queue ?st2" by (simp add: dispatch_def)
    have a: "n < activations ?st2" using Cons.prems by (simp add: dispatch_def)
    have f: "finished ?st2 n = finished st n" by (simp add: dispatch_def)
    have e: "runQueue st = runQueue ?st2"
      using Cons.hyps(2) Item by (intro runQueue_Item) simp
    show ?thesis unfolding e using Cons.hyps(1) [OF q a] f by simp
  next
    case (TransactionItem cb)
    have e: "runQueue st = beginTransaction (st\<lparr>queue := rest\<rparr>) cb"
      using Cons.hyps(2) TransactionItem by (intro runQueue_TransactionItem) simp
    show ?thesis unfolding e using Cons.prems by (simp add: finished_beginTransaction)
  qed
qed

lemma finishTransaction_eq:
  "finishTransaction st n e cb =
     call (runQueue (st\<lparr>finished := (finished st)(n := True), currentTransaction := None\<rparr>)) cb e None"
  by (simp add: finishTransaction.simps)

lemma finished_finishTransaction:
  "n < activations st \<Longrightarrow> finished (finishTransaction st n e cb) n"
  by (simp add: finishTransaction_eq frame_call finished_runQueue)









section \<open>Commit or rollback after the end of the transaction\<close>

text \<open>
  C7, as the code has it. The handle is the one database object, and every
  \<open>beginTransaction\<close> assigns its own \<open>commit\<close> and \<open>rollback\<close> to it: in every run the two
  on the handle are the closures of the most recently started transaction. While that
  transaction is finished (no later one has been started), \<open>commit\<close> and \<open>rollback\<close>
  called on the handle only call the given callback with their "already finished"
  error: the state is the old one with that call appended to the trace, so no statement
  is issued and the lock counter, the queue, \<open>currentTransaction\<close>, the timers and the
  pending statements are as before.
\<close>

theorem finished_commit_rollback_fail:
  "(activations (run acts) = Suc n \<and> finished (run acts) n \<longrightarrow>
      step (run acts) (Handle ''commit'' [Fn c])
        = (run acts)\<lparr>trace := trace (run acts) @ [Called c (Some AlreadyFinishedCommit) None]\<rparr>
      \<and> step (run acts) (Handle ''rollback'' [Fn c])
        = (run acts)\<lparr>trace := trace (run acts) @ [Called c (Some AlreadyFinishedRollback) None]\<rparr>)
   \<and> (db_commit st = Some m \<and> finished st m \<longrightarrow>
        step st (Handle ''commit'' [Fn c'])
          = st\<lparr>trace := trace st @ [Called c' (Some AlreadyFinishedCommit) None]\<rparr>)
   \<and> (db_rollback st = Some m \<and> finished st m \<longrightarrow>
        step st (Handle ''rollback'' [Fn c'])
          = st\<lparr>trace := trace st @ [Called c' (Some AlreadyFinishedRollback) None]\<rparr>)
   \<and> ((db_commit (run acts) = Some k) = (activations (run acts) = Suc k))
   \<and> ((db_rollback (run acts) = Some k) = (activations (run acts) = Suc k))"
proof -
  have r: "reg_inv (run acts)" by (rule reg_inv_run)
  have k: "(db_commit (run acts) = Some k) = (activations (run acts) = Suc k)"
    "(db_rollback (run acts) = Some k) = (activations (run acts) = Suc k)"
    using r unfolding reg_inv_def by blast+
  have g: "db_commit st = Some m \<and> finished st m \<longrightarrow>
        step st (Handle ''commit'' [Fn c'])
          = st\<lparr>trace := trace st @ [Called c' (Some AlreadyFinishedCommit) None]\<rparr>"
    "db_rollback st = Some m \<and> finished st m \<longrightarrow>
        step st (Handle ''rollback'' [Fn c'])
          = st\<lparr>trace := trace st @ [Called c' (Some AlreadyFinishedRollback) None]\<rparr>"
    for st m c'
    by (simp_all add: handle_call_def method_commit.simps method_rollback.simps
        commit_def rollback_def log_def)
  have n: "activations (run acts) = Suc n \<Longrightarrow>
      db_commit (run acts) = Some n \<and> db_rollback (run acts) = Some n"
    using r unfolding reg_inv_def by blast
  show ?thesis using k g [of st m c'] g [of "run acts" n c] n by blast
qed

theorem finished_commit_rollback_fail_witness:
  "activations (run [BeginTransaction [Fn 0], ExecDone 0 None, Handle ''rollback'' [Fn 2], ExecDone 0 None,
         BeginTransaction [Fn 3], ExecDone 0 None, Handle ''commit'' [Fn 4], ExecDone 0 None]) = Suc (Suc 0)
   \<and> finished (run [BeginTransaction [Fn 0], ExecDone 0 None, Handle ''rollback'' [Fn 2], ExecDone 0 None,
         BeginTransaction [Fn 3], ExecDone 0 None, Handle ''commit'' [Fn 4], ExecDone 0 None]) (Suc 0)
   \<and> db_commit (run [BeginTransaction [Fn 0], ExecDone 0 None, Handle ''rollback'' [Fn 2], ExecDone 0 None,
         BeginTransaction [Fn 3], ExecDone 0 None, Handle ''commit'' [Fn 4], ExecDone 0 None]) = Some (Suc 0)
   \<and> db_rollback (run [BeginTransaction [Fn 0], ExecDone 0 None, Handle ''rollback'' [Fn 2], ExecDone 0 None,
         BeginTransaction [Fn 3], ExecDone 0 None, Handle ''commit'' [Fn 4], ExecDone 0 None]) = Some (Suc 0)
   \<and> step (run [BeginTransaction [Fn 0], ExecDone 0 None, Handle ''rollback'' [Fn 2], ExecDone 0 None,
         BeginTransaction [Fn 3], ExecDone 0 None, Handle ''commit'' [Fn 4], ExecDone 0 None])
        (Handle ''commit'' [Fn 5])
     = (run [BeginTransaction [Fn 0], ExecDone 0 None, Handle ''rollback'' [Fn 2], ExecDone 0 None,
         BeginTransaction [Fn 3], ExecDone 0 None, Handle ''commit'' [Fn 4], ExecDone 0 None])
         \<lparr>trace := [Stmt ''BEGIN;'' 0, Called 0 None (Some Db), Stmt ''ROLLBACK;'' 0, Called 2 None None,
                    Stmt ''BEGIN;'' 0, Called 3 None (Some Db), Stmt ''COMMIT;'' 0, Called 4 None None,
                    Called 5 (Some AlreadyFinishedCommit) None]\<rparr>
   \<and> step (run [BeginTransaction [Fn 0], ExecDone 0 None, Handle ''rollback'' [Fn 2], ExecDone 0 None,
         BeginTransaction [Fn 3], ExecDone 0 None, Handle ''commit'' [Fn 4], ExecDone 0 None])
        (Handle ''rollback'' [Fn 5])
     = (run [BeginTransaction [Fn 0], ExecDone 0 None, Handle ''rollback'' [Fn 2], ExecDone 0 None,
         BeginTransaction [Fn 3], ExecDone 0 None, Handle ''commit'' [Fn 4], ExecDone 0 None])
         \<lparr>trace := [Stmt ''BEGIN;'' 0, Called 0 None (Some Db), Stmt ''ROLLBACK;'' 0, Called 2 None None,
                    Stmt ''BEGIN;'' 0, Called 3 None (Some Db), Stmt ''COMMIT;'' 0, Called 4 None None,
                    Called 5 (Some AlreadyFinishedRollback) None]\<rparr>"
proof -
  let ?s = "run [BeginTransaction [Fn 0], ExecDone 0 None, Handle ''rollback'' [Fn 2], ExecDone 0 None,
         BeginTransaction [Fn 3], ExecDone 0 None, Handle ''commit'' [Fn 4], ExecDone 0 None]"
  have a: "activations ?s = Suc (Suc 0)" by (simp add: eval_defs)
  have f: "finished ?s (Suc 0)" by (simp add: eval_defs)
  have t: "trace ?s = [Stmt ''BEGIN;'' 0, Called 0 None (Some Db), Stmt ''ROLLBACK;'' 0, Called 2 None None,
                    Stmt ''BEGIN;'' 0, Called 3 None (Some Db), Stmt ''COMMIT;'' 0, Called 4 None None]"
    by (simp add: eval_defs)
  note th = finished_commit_rollback_fail
    [where acts = "[BeginTransaction [Fn 0], ExecDone 0 None, Handle ''rollback'' [Fn 2], ExecDone 0 None,
         BeginTransaction [Fn 3], ExecDone 0 None, Handle ''commit'' [Fn 4], ExecDone 0 None]"
       and n = "Suc 0" and c = 5 and st = ?s and m = "Suc 0" and c' = 5 and k = "Suc 0"]
  have d: "db_commit ?s = Some (Suc 0)" "db_rollback ?s = Some (Suc 0)" using th a by blast+
  have s1: "step ?s (Handle ''commit'' [Fn 5])
      = ?s\<lparr>trace := trace ?s @ [Called 5 (Some AlreadyFinishedCommit) None]\<rparr>"
    using th a f by blast
  have s2: "step ?s (Handle ''rollback'' [Fn 5])
      = ?s\<lparr>trace := trace ?s @ [Called 5 (Some AlreadyFinishedRollback) None]\<rparr>"
    using th a f by blast
  show ?thesis using a f d s1 s2 by (simp add: t)
qed

text \<open>
  C7 as stated fails: a second transaction is requested while the first is open, and the
  first is rolled back. The drain that follows starts the second transaction, which
  assigns its own \<open>commit\<close> and \<open>rollback\<close> to the handle. The terminal flag of the first
  transaction is set, yet \<open>commit\<close> called again on the same handle gets no error: it
  passes the guard of the second transaction and issues COMMIT.
\<close>

theorem commit_on_handle_after_next_begin:
  "finished (run [BeginTransaction [Fn 0], ExecDone 0 None, BeginTransaction [Fn 2],
                  Handle ''rollback'' [Fn 3], ExecDone 0 None]) 0
   \<and> trace (run [BeginTransaction [Fn 0], ExecDone 0 None, BeginTransaction [Fn 2],
                 Handle ''rollback'' [Fn 3], ExecDone 0 None])
       = [Stmt ''BEGIN;'' 0, Called 0 None (Some Db), Stmt ''ROLLBACK;'' 0, Stmt ''BEGIN;'' 0,
          Called 3 None None]
   \<and> trace (run [BeginTransaction [Fn 0], ExecDone 0 None, BeginTransaction [Fn 2],
                 Handle ''rollback'' [Fn 3], ExecDone 0 None, Handle ''commit'' [Fn 4]])
       = [Stmt ''BEGIN;'' 0, Called 0 None (Some Db), Stmt ''ROLLBACK;'' 0, Stmt ''BEGIN;'' 0,
          Called 3 None None, Stmt ''COMMIT;'' 0]
   \<and> pending (run [BeginTransaction [Fn 0], ExecDone 0 None, BeginTransaction [Fn 2],
                   Handle ''rollback'' [Fn 3], ExecDone 0 None, Handle ''commit'' [Fn 4]])
       = [(''BEGIN;'', BeginH 1), (''COMMIT;'', CommitH 1 (User 4))]"
  by (simp add: eval_defs)

section \<open>The wait gate\<close>

text \<open>
  C1. In every run, each BEGIN, COMMIT or ROLLBACK statement given to \<open>_exec\<close> was
  given at a moment when the lock counter was zero: \<open>Stmt s l\<close> records the counter
  \<open>l\<close> read at the call, and \<open>_exec\<close> is called by the continuations given to \<open>_wait\<close> only.
\<close>

theorem boundary_statements_at_lock_zero:
  "Stmt s l \<in> set (trace (run acts)) \<Longrightarrow> l = 0"
  using gate_inv_run [of acts] by (simp add: gate_inv_def)

theorem boundary_statements_at_lock_zero_witness:
  "Stmt ''COMMIT;'' (lock (run [BeginTransaction [Fn 0], ExecDone 0 None, Handle ''commit'' [Fn 1]]))
     \<in> set (trace (run [BeginTransaction [Fn 0], ExecDone 0 None, Handle ''commit'' [Fn 1]]))
   \<and> lock (run [BeginTransaction [Fn 0], ExecDone 0 None, Handle ''commit'' [Fn 1]]) = 0"
proof -
  have h: "Stmt ''COMMIT;'' (lock (run [BeginTransaction [Fn 0], ExecDone 0 None, Handle ''commit'' [Fn 1]]))
     \<in> set (trace (run [BeginTransaction [Fn 0], ExecDone 0 None, Handle ''commit'' [Fn 1]]))"
    by (simp add: eval_defs)
  show ?thesis
    using h boundary_statements_at_lock_zero [OF h] by simp
qed

text \<open>
  C10. In every run, each continuation given to \<open>_wait\<close> was run with no argument and
  with the lock counter at zero; \<open>check\<close> runs the continuation with no argument when
  the counter is zero and sets the timer otherwise; and a continuation run with no
  argument only issues its statement: no callback is called by it.
\<close>

theorem wait_continuation_without_error:
  "((k, e, l) \<in> set (resumed (run acts)) \<longrightarrow> e = None \<and> l = 0)
   \<and> check st k' = (if lock st = 0 then run_cont st k' None else st\<lparr>timers := timers st @ [k']\<rparr>)
   \<and> trace (run_cont st k' None) =
       trace st @ [Stmt (case k' of BeginK n \<Rightarrow> ''BEGIN;'' | CommitK n cb \<Rightarrow> ''COMMIT;''
                        | RollbackK n cb \<Rightarrow> ''ROLLBACK;'') (lock st)]"
  using gate_inv_run [of acts]
  by (auto simp: gate_inv_def check.simps run_cont_None exec_def split: cont.splits)

theorem wait_continuation_without_error_witness:
  "(CommitK 0 (User 1), None, 0)
     \<in> set (resumed (run [BeginTransaction [Fn 0], ExecDone 0 None, Handle ''commit'' [Fn 1]]))
   \<and> (None :: err) = None \<and> (0 :: int) = 0
   \<and> check init (CommitK 0 (User 1)) = run_cont init (CommitK 0 (User 1)) None
   \<and> trace (run_cont init (CommitK 0 (User 1)) None) = [Stmt ''COMMIT;'' 0]"
proof -
  have h: "(CommitK 0 (User 1), None, 0)
     \<in> set (resumed (run [BeginTransaction [Fn 0], ExecDone 0 None, Handle ''commit'' [Fn 1]]))"
    by (simp add: eval_defs)
  have i: "lock init = 0" "trace init = []" by (simp_all add: init_def)
  show ?thesis
    using h i wait_continuation_without_error
      [of "CommitK 0 (User 1)" None 0
          "[BeginTransaction [Fn 0], ExecDone 0 None, Handle ''commit'' [Fn 1]]"
          init "CommitK 0 (User 1)"]
    by simp
qed

section \<open>The \<open>error\<close> event during a transaction\<close>

text \<open>
  C4. A transaction is open (BEGIN has succeeded) and the connection emits \<open>error\<close>.
  The listener of line 72 reads \<open>this.currentTransaction\<close> with \<open>this\<close> the database
  object, gets \<open>undefined\<close>, which is not \<open>null\<close>, and throws a TypeError on
  \<open>undefined.rollback\<close>: no ROLLBACK is issued. Without a listener on the
  TransactionDatabase the forwarded \<open>emit\<close> throws before the listener is reached.
\<close>

theorem error_event_throws_instead_of_rollback:
  "currentTransaction (run [Listen, BeginTransaction [Fn 0], ExecDone 0 None]) = Some Db
   \<and> trace (run [Listen, BeginTransaction [Fn 0], ExecDone 0 None])
       = [Stmt ''BEGIN;'' 0, Called 0 None (Some Db)]
   \<and> step (run [Listen, BeginTransaction [Fn 0], ExecDone 0 None]) (ErrorEvent (DbFailure 1))
       = (run [Listen, BeginTransaction [Fn 0], ExecDone 0 None])
           \<lparr>trace := [Stmt ''BEGIN;'' 0, Called 0 None (Some Db), Emitted (DbFailure 1), Thrown TypeError]\<rparr>
   \<and> step (run [BeginTransaction [Fn 0], ExecDone 0 None]) (ErrorEvent (DbFailure 1))
       = (run [BeginTransaction [Fn 0], ExecDone 0 None])
           \<lparr>trace := [Stmt ''BEGIN;'' 0, Called 0 None (Some Db), Thrown (DbFailure 1)]\<rparr>"
  by (simp add: eval_defs)

section \<open>A BEGIN that fails\<close>

text \<open>
  C6. \<open>beginTransaction\<close> is called with no transaction registered and the connection
  answers BEGIN with an error. The callback gets the error, but \<open>currentTransaction\<close>,
  assigned at line 235 before BEGIN was issued, is still the database object, nothing is
  pending and no timer is set; a later \<open>run\<close> on the TransactionDatabase is queued
  instead of dispatched.
\<close>

theorem begin_failure_leaves_currentTransaction:
  "trace (run [BeginTransaction [Fn 0], ExecDone 0 (Some (DbFailure 1))])
     = [Stmt ''BEGIN;'' 0, Called 0 (Some (DbFailure 1)) None]
   \<and> currentTransaction (run [BeginTransaction [Fn 0], ExecDone 0 (Some (DbFailure 1))]) = Some Db
   \<and> pending (run [BeginTransaction [Fn 0], ExecDone 0 (Some (DbFailure 1))]) = []
   \<and> timers (run [BeginTransaction [Fn 0], ExecDone 0 (Some (DbFailure 1))]) = []
   \<and> trace (run [BeginTransaction [Fn 0], ExecDone 0 (Some (DbFailure 1)), Wrapped Db ''run'' [Val 1]])
     = [Stmt ''BEGIN;'' 0, Called 0 (Some (DbFailure 1)) None]
   \<and> queue (run [BeginTransaction [Fn 0], ExecDone 0 (Some (DbFailure 1)), Wrapped Db ''run'' [Val 1]])
     = [Item True Db ''run'' [Val 1, NewCallback None]]"
  by (simp add: eval_defs)

section \<open>The drain of the queue\<close>




section \<open>Locking operations\<close>



section \<open>The transaction handle\<close>

text \<open>
  C9, as the code has it. The handle given to the callback of \<open>beginTransaction\<close> is, in
  every run, the database object. Its methods are the raw ones except \<open>commit\<close> and
  \<open>rollback\<close>, assigned by \<open>beginTransaction\<close>, and \<open>emit\<close>, replaced by \<open>interceptEmit\<close>.
  A call of any other method is dispatched at once with the arguments as given. No
  method other than \<open>commit\<close> and \<open>rollback\<close> changes the lock counter, the queue or
  \<open>currentTransaction\<close>; \<open>emit\<close> is not dispatched to the connection at all. The caller's
  function, not hijacked, is later called without a change of the lock counter.
\<close>

theorem handle_is_raw_database:
  "(Called c e (Some h) \<in> set (trace (run acts)) \<longrightarrow> h = Db)
   \<and> (i < length (pending sb) \<and> snd (pending sb ! i) = BeginH n \<and> callback_of sb n = User c' \<longrightarrow>
        step sb (ExecDone i None)
          = sb\<lparr>pending := remove_nth i (pending sb), trace := trace sb @ [Called c' None (Some Db)]\<rparr>)
   \<and> (m \<noteq> ''commit'' \<and> m \<noteq> ''rollback'' \<and> m \<noteq> ''emit'' \<longrightarrow>
        step st (Handle m as)
          = st\<lparr>inflight := inflight st @ [(Db, m, as)], trace := trace st @ [Dispatch Db m as]\<rparr>)
   \<and> (m' \<noteq> ''commit'' \<and> m' \<noteq> ''rollback'' \<longrightarrow>
        lock (step st (Handle m' as')) = lock st
        \<and> queue (step st (Handle m' as')) = queue st
        \<and> currentTransaction (step st (Handle m' as')) = currentTransaction st)
   \<and> inflight (step st (Handle ''emit'' as')) = inflight st
   \<and> (j < length (inflight so) \<and> inflight so ! j = (Db, m, as) \<and> as \<noteq> [] \<and> last as = Fn d \<longrightarrow>
        step so (OpDone j e') = so\<lparr>trace := trace so @ [Called d e' None]\<rparr>)"
proof -
  have 1: "Called c e (Some h) \<in> set (trace (run acts)) \<longrightarrow> h = Db"
    using gate_inv_run [of acts] by (simp add: gate_inv_def)
  have 2: "i < length (pending sb) \<and> snd (pending sb ! i) = BeginH n \<and> callback_of sb n = User c' \<longrightarrow>
        step sb (ExecDone i None)
          = sb\<lparr>pending := remove_nth i (pending sb), trace := trace sb @ [Called c' None (Some Db)]\<rparr>"
    by (simp add: log_def)
  have 3: "m \<noteq> ''commit'' \<and> m \<noteq> ''rollback'' \<and> m \<noteq> ''emit'' \<longrightarrow>
        step st (Handle m as)
          = st\<lparr>inflight := inflight st @ [(Db, m, as)], trace := trace st @ [Dispatch Db m as]\<rparr>"
    by (simp add: handle_call_def dispatch_def)
  have em: "emit st as' = st\<lparr>trace := trace (emit st as')\<rparr>"
    by (simp add: emit_def emit_error_def error_listener_def log_def
        split: list.splits jsarg.splits)
  have 5: "inflight (step st (Handle ''emit'' as')) = inflight st"
    by (simp add: handle_call_def) (subst em, simp)
  have 4: "m' \<noteq> ''commit'' \<and> m' \<noteq> ''rollback'' \<longrightarrow>
        lock (step st (Handle m' as')) = lock st
        \<and> queue (step st (Handle m' as')) = queue st
        \<and> currentTransaction (step st (Handle m' as')) = currentTransaction st"
  proof (cases "m' = ''emit''")
    case True
    have "lock (emit st as') = lock st \<and> queue (emit st as') = queue st
          \<and> currentTransaction (emit st as') = currentTransaction st"
      by (subst em, subst (2) em, subst (3) em, simp)
    then show ?thesis using True by (simp add: handle_call_def)
  next
    case False
    then show ?thesis by (simp add: handle_call_def dispatch_def)
  qed
  have 6: "j < length (inflight so) \<and> inflight so ! j = (Db, m, as) \<and> as \<noteq> [] \<and> last as = Fn d \<longrightarrow>
        step so (OpDone j e') = so\<lparr>trace := trace so @ [Called d e' None]\<rparr>"
    by (simp add: log_def)
  show ?thesis using 1 2 3 4 5 6 by blast
qed

theorem handle_is_raw_database_witness:
  "Called 0 None (Some Db) \<in> set (trace (run [BeginTransaction [Fn 0], ExecDone 0 None]))
   \<and> pending (run [BeginTransaction [Fn 0]]) = [(''BEGIN;'', BeginH 0)]
   \<and> callback_of (run [BeginTransaction [Fn 0]]) 0 = User 0
   \<and> step (run [BeginTransaction [Fn 0]]) (ExecDone 0 None)
      = (run [BeginTransaction [Fn 0]])\<lparr>pending := [], trace := [Stmt ''BEGIN;'' 0, Called 0 None (Some Db)]\<rparr>
   \<and> step (run [BeginTransaction [Fn 0], ExecDone 0 None]) (Handle ''run'' [Val 7, Fn 5])
      = (run [BeginTransaction [Fn 0], ExecDone 0 None])
          \<lparr>inflight := [(Db, ''run'', [Val 7, Fn 5])],
           trace := [Stmt ''BEGIN;'' 0, Called 0 None (Some Db), Dispatch Db ''run'' [Val 7, Fn 5]]\<rparr>
   \<and> lock (step (run [BeginTransaction [Fn 0], ExecDone 0 None]) (Handle ''emit'' [Str ''error'', Val 7])) = 0
   \<and> queue (step (run [BeginTransaction [Fn 0], ExecDone 0 None]) (Handle ''emit'' [Str ''error'', Val 7])) = []
   \<and> currentTransaction (step (run [BeginTransaction [Fn 0], ExecDone 0 None])
                            (Handle ''emit'' [Str ''error'', Val 7])) = Some Db
   \<and> inflight (run [BeginTransaction [Fn 0], ExecDone 0 None, Handle ''run'' [Val 7, Fn 5]]) ! 0
      = (Db, ''run'', [Val 7, Fn 5])
   \<and> step (run [BeginTransaction [Fn 0], ExecDone 0 None, Handle ''run'' [Val 7, Fn 5]]) (OpDone 0 None)
      = (run [BeginTransaction [Fn 0], ExecDone 0 None, Handle ''run'' [Val 7, Fn 5]])
          \<lparr>trace := [Stmt ''BEGIN;'' 0, Called 0 None (Some Db), Dispatch Db ''run'' [Val 7, Fn 5],
                     Called 5 None None]\<rparr>"
proof -
  let ?b = "run [BeginTransaction [Fn 0]]"
  let ?s = "run [BeginTransaction [Fn 0], ExecDone 0 None]"
  let ?o = "run [BeginTransaction [Fn 0], ExecDone 0 None, Handle ''run'' [Val 7, Fn 5]]"
  have h1: "Called 0 None (Some Db) \<in> set (trace ?s)" by (simp add: eval_defs)
  have pb: "pending ?b = [(''BEGIN;'', BeginH 0)]" "callback_of ?b 0 = User 0"
    "trace ?b = [Stmt ''BEGIN;'' 0]"
    by (simp_all add: eval_defs)
  have h2: "0 < length (pending ?b) \<and> snd (pending ?b ! 0) = BeginH 0 \<and> callback_of ?b 0 = User 0"
    by (simp add: pb)
  have h3: "''run'' \<noteq> ''commit'' \<and> ''run'' \<noteq> ''rollback'' \<and> ''run'' \<noteq> ''emit''" by simp
  have h4: "''emit'' \<noteq> ''commit'' \<and> ''emit'' \<noteq> ''rollback''" by simp
  have fs: "lock ?s = 0" "queue ?s = []" "currentTransaction ?s = Some Db" "inflight ?s = []"
    "trace ?s = [Stmt ''BEGIN;'' 0, Called 0 None (Some Db)]"
    by (simp_all add: eval_defs)
  have fo: "inflight ?o = [(Db, ''run'', [Val 7, Fn 5])]"
    "trace ?o = [Stmt ''BEGIN;'' 0, Called 0 None (Some Db), Dispatch Db ''run'' [Val 7, Fn 5]]"
    by (simp_all add: eval_defs)
  have h6: "0 < length (inflight ?o) \<and> inflight ?o ! 0 = (Db, ''run'', [Val 7, Fn 5])
            \<and> [Val 7, Fn 5] \<noteq> [] \<and> last [Val 7, Fn 5] = Fn 5"
    by (simp add: fo)
  note th = handle_is_raw_database [where acts = "[BeginTransaction [Fn 0], ExecDone 0 None]"
      and c = 0 and e = None and h = Db and sb = ?b and i = 0 and n = 0 and c' = 0
      and st = ?s and m = "''run''" and as = "[Val 7, Fn 5]" and m' = "''emit''"
      and as' = "[Str ''error'', Val 7]" and so = ?o and j = 0 and d = 5 and e' = None]
  have c2: "step ?b (ExecDone 0 None)
      = ?b\<lparr>pending := remove_nth 0 (pending ?b), trace := trace ?b @ [Called 0 None (Some Db)]\<rparr>"
    using th h2 by blast
  have c4: "lock (step ?s (Handle ''emit'' [Str ''error'', Val 7])) = lock ?s
        \<and> queue (step ?s (Handle ''emit'' [Str ''error'', Val 7])) = queue ?s
        \<and> currentTransaction (step ?s (Handle ''emit'' [Str ''error'', Val 7])) = currentTransaction ?s"
    using th h4 by blast
  have c6: "step ?o (OpDone 0 None) = ?o\<lparr>trace := trace ?o @ [Called 5 None None]\<rparr>"
    using th h6 by blast
  have c3: "step ?s (Handle ''run'' [Val 7, Fn 5])
      = ?s\<lparr>inflight := inflight ?s @ [(Db, ''run'', [Val 7, Fn 5])],
           trace := trace ?s @ [Dispatch Db ''run'' [Val 7, Fn 5]]\<rparr>"
    by (simp add: handle_call_def dispatch_def)
  show ?thesis
    using h1 pb c2 c3 c4 c6 h6 by (simp add: fs fo remove_nth_def)
qed

text \<open>
  C9 as stated fails: \<open>emit\<close> is a method of the handle too, and it is not the raw one.
  Called on the handle with an \<open>error\<close> event, it passes the event to the listeners
  of the TransactionDatabase and then runs the listener of line 72, which throws;
  nothing is dispatched to the connection.
\<close>

theorem handle_emit_is_intercepted:
  "trace (run [Listen, BeginTransaction [Fn 0], ExecDone 0 None, Handle ''emit'' [Str ''error'', Val 7]])
     = [Stmt ''BEGIN;'' 0, Called 0 None (Some Db), Emitted (DbFailure 7), Thrown TypeError]
   \<and> inflight (run [Listen, BeginTransaction [Fn 0], ExecDone 0 None,
                    Handle ''emit'' [Str ''error'', Val 7]]) = []
   \<and> trace (run [Listen, BeginTransaction [Fn 0], ExecDone 0 None, Handle ''emit'' [Str ''trace'', Val 7]])
     = [Stmt ''BEGIN;'' 0, Called 0 None (Some Db), Forwarded [Str ''trace'', Val 7]]
   \<and> inflight (run [Listen, BeginTransaction [Fn 0], ExecDone 0 None,
                    Handle ''emit'' [Str ''trace'', Val 7]]) = []"
  by (simp add: eval_defs)

section \<open>A COMMIT that fails\<close>

text \<open>
  C5, as the code has it. The connection answers the COMMIT of a transaction with an
  error \<open>e\<close> while \<open>rollback\<close> on the handle is still that of this transaction (in every
  run it is that of the most recently started one). If the transaction is not finished
  at that moment, \<open>rollback\<close> goes through the wait gate with the callback
  \<open>function() { cb(err); }\<close>: with the lock counter not zero a timer is set, which runs
  the check again, and with the counter at zero ROLLBACK is issued. When the connection
  answers that ROLLBACK, with an error or not, the flag is set, \<open>currentTransaction\<close> is
  cleared, the queue is drained, and only then the callback of the commit is called,
  with \<open>e\<close>; the flag is still set then. If the transaction is already finished when
  COMMIT fails, the callback of the commit is called with \<open>e\<close> at once and nothing else
  happens.
\<close>

theorem failed_commit_rolls_back:
  "(db_rollback sa = Some n \<and> \<not> finished sa n
      \<and> i < length (pending sa) \<and> snd (pending sa ! i) = CommitH n (User c) \<longrightarrow>
      step sa (ExecDone i (Some e))
        = check (sa\<lparr>pending := remove_nth i (pending sa)\<rparr>) (RollbackK n (CommitFailed (User c) e)))
   \<and> (lock sb \<noteq> 0 \<longrightarrow>
      check sb (RollbackK n (CommitFailed (User c) e))
        = sb\<lparr>timers := timers sb @ [RollbackK n (CommitFailed (User c) e)]\<rparr>)
   \<and> (t < length (timers st) \<longrightarrow>
      step st (Tick t) = check (st\<lparr>timers := remove_nth t (timers st)\<rparr>) (timers st ! t))
   \<and> (lock sc = 0 \<longrightarrow>
      check sc (RollbackK n (CommitFailed (User c) e))
        = sc\<lparr>pending := pending sc @ [(''ROLLBACK;'', RollbackH n (CommitFailed (User c) e))],
             trace := trace sc @ [Stmt ''ROLLBACK;'' 0],
             resumed := resumed sc @ [(RollbackK n (CommitFailed (User c) e), None, 0)]\<rparr>)
   \<and> (j < length (pending (run acts))
      \<and> snd (pending (run acts) ! j) = RollbackH n (CommitFailed (User c) e) \<longrightarrow>
      step (run acts) (ExecDone j e2)
        = log (Called c (Some e) None)
            (runQueue (((run acts)\<lparr>pending := remove_nth j (pending (run acts))\<rparr>)
                         \<lparr>finished := (finished (run acts))(n := True), currentTransaction := None\<rparr>))
      \<and> finished (step (run acts) (ExecDone j e2)) n)
   \<and> (db_rollback se = Some n \<and> finished se n
      \<and> i' < length (pending se) \<and> snd (pending se ! i') = CommitH n (User c) \<longrightarrow>
      step se (ExecDone i' (Some e))
        = se\<lparr>pending := remove_nth i' (pending se), trace := trace se @ [Called c (Some e) None]\<rparr>)
   \<and> ((db_rollback (run acts) = Some k) = (activations (run acts) = Suc k))"
proof -
  have 1: "db_rollback sa = Some n \<and> \<not> finished sa n
      \<and> i < length (pending sa) \<and> snd (pending sa ! i) = CommitH n (User c) \<longrightarrow>
      step sa (ExecDone i (Some e))
        = check (sa\<lparr>pending := remove_nth i (pending sa)\<rparr>) (RollbackK n (CommitFailed (User c) e))"
    by (simp add: method_rollback.simps rollback_def)
  have 2: "lock sb \<noteq> 0 \<longrightarrow>
      check sb (RollbackK n (CommitFailed (User c) e))
        = sb\<lparr>timers := timers sb @ [RollbackK n (CommitFailed (User c) e)]\<rparr>"
    by (simp add: check_eq)
  have 3: "t < length (timers st) \<longrightarrow>
      step st (Tick t) = check (st\<lparr>timers := remove_nth t (timers st)\<rparr>) (timers st ! t)"
    by simp
  have 4: "lock sc = 0 \<longrightarrow>
      check sc (RollbackK n (CommitFailed (User c) e))
        = sc\<lparr>pending := pending sc @ [(''ROLLBACK;'', RollbackH n (CommitFailed (User c) e))],
             trace := trace sc @ [Stmt ''ROLLBACK;'' 0],
             resumed := resumed sc @ [(RollbackK n (CommitFailed (User c) e), None, 0)]\<rparr>"
    by (simp add: check_eq)
  have 5: "step (run acts) (ExecDone j e2)
        = log (Called c (Some e) None)
            (runQueue (((run acts)\<lparr>pending := remove_nth j (pending (run acts))\<rparr>)
                         \<lparr>finished := (finished (run acts))(n := True), currentTransaction := None\<rparr>))
      \<and> finished (step (run acts) (ExecDone j e2)) n"
    if h: "j < length (pending (run acts))"
      "snd (pending (run acts) ! j) = RollbackH n (CommitFailed (User c) e)"
  proof -
    have "pending (run acts) ! j \<in> set (pending (run acts))" using h(1) by simp
    then have "handler_activation (snd (pending (run acts) ! j)) < activations (run acts)"
      using reg_inv_run [of acts] unfolding reg_inv_def by blast
    then have a: "n < activations ((run acts)\<lparr>pending := remove_nth j (pending (run acts))\<rparr>)"
      using h(2) by simp
    have s: "step (run acts) (ExecDone j e2)
        = finishTransaction ((run acts)\<lparr>pending := remove_nth j (pending (run acts))\<rparr>) n e2
            (CommitFailed (User c) e)"
      using h by simp
    show ?thesis
      unfolding s using finished_finishTransaction [OF a, of e2 "CommitFailed (User c) e"]
      by (simp add: finishTransaction_eq)
  qed
  have 6: "db_rollback se = Some n \<and> finished se n
      \<and> i' < length (pending se) \<and> snd (pending se ! i') = CommitH n (User c) \<longrightarrow>
      step se (ExecDone i' (Some e))
        = se\<lparr>pending := remove_nth i' (pending se), trace := trace se @ [Called c (Some e) None]\<rparr>"
    by (simp add: method_rollback.simps rollback_def log_def)
  have 7: "(db_rollback (run acts) = Some k) = (activations (run acts) = Suc k)"
    using reg_inv_run [of acts] unfolding reg_inv_def by blast
  show ?thesis using 1 2 3 4 5 6 7 by blast
qed

theorem failed_commit_rolls_back_witness:
  "db_rollback (run [BeginTransaction [Fn 0], ExecDone 0 None, Handle ''commit'' [Fn 2]]) = Some 0
   \<and> \<not> finished (run [BeginTransaction [Fn 0], ExecDone 0 None, Handle ''commit'' [Fn 2]]) 0
   \<and> pending (run [BeginTransaction [Fn 0], ExecDone 0 None, Handle ''commit'' [Fn 2]])
      = [(''COMMIT;'', CommitH 0 (User 2))]
   \<and> step (run [BeginTransaction [Fn 0], ExecDone 0 None, Handle ''commit'' [Fn 2]])
        (ExecDone 0 (Some (DbFailure 4)))
      = check ((run [BeginTransaction [Fn 0], ExecDone 0 None, Handle ''commit'' [Fn 2]])
                 \<lparr>pending := remove_nth 0 (pending (run [BeginTransaction [Fn 0], ExecDone 0 None,
                                                          Handle ''commit'' [Fn 2]]))\<rparr>)
          (RollbackK 0 (CommitFailed (User 2) (DbFailure 4)))
   \<and> lock (run [Wrapped Db ''run'' [Val 7]]) \<noteq> 0
   \<and> check (run [Wrapped Db ''run'' [Val 7]]) (RollbackK 0 (CommitFailed (User 2) (DbFailure 4)))
      = (run [Wrapped Db ''run'' [Val 7]])
          \<lparr>timers := timers (run [Wrapped Db ''run'' [Val 7]])
                       @ [RollbackK 0 (CommitFailed (User 2) (DbFailure 4))]\<rparr>
   \<and> timers (run [Wrapped Db ''run'' [Val 7], BeginTransaction [Fn 0]]) = [BeginK 0]
   \<and> step (run [Wrapped Db ''run'' [Val 7], BeginTransaction [Fn 0]]) (Tick 0)
      = check ((run [Wrapped Db ''run'' [Val 7], BeginTransaction [Fn 0]])
                 \<lparr>timers := remove_nth 0 (timers (run [Wrapped Db ''run'' [Val 7],
                                                        BeginTransaction [Fn 0]]))\<rparr>)
          (timers (run [Wrapped Db ''run'' [Val 7], BeginTransaction [Fn 0]]) ! 0)
   \<and> trace (run [BeginTransaction [Fn 0], ExecDone 0 None, Handle ''commit'' [Fn 2],
                 ExecDone 0 (Some (DbFailure 4))])
      = [Stmt ''BEGIN;'' 0, Called 0 None (Some Db), Stmt ''COMMIT;'' 0, Stmt ''ROLLBACK;'' 0]
   \<and> pending (run [BeginTransaction [Fn 0], ExecDone 0 None, Handle ''commit'' [Fn 2],
                   ExecDone 0 (Some (DbFailure 4))])
      = [(''ROLLBACK;'', RollbackH 0 (CommitFailed (User 2) (DbFailure 4)))]
   \<and> finished (step (run [BeginTransaction [Fn 0], ExecDone 0 None, Handle ''commit'' [Fn 2],
                          ExecDone 0 (Some (DbFailure 4))]) (ExecDone 0 None)) 0
   \<and> trace (step (run [BeginTransaction [Fn 0], ExecDone 0 None, Handle ''commit'' [Fn 2],
                       ExecDone 0 (Some (DbFailure 4))]) (ExecDone 0 None))
      = [Stmt ''BEGIN;'' 0, Called 0 None (Some Db), Stmt ''COMMIT;'' 0, Stmt ''ROLLBACK;'' 0,
         Called 2 (Some (DbFailure 4)) None]
   \<and> db_rollback (run [BeginTransaction [Fn 0], ExecDone 0 None, Handle ''commit'' [Fn 3],
                       Handle ''commit'' [Fn 2], ExecDone 0 None]) = Some 0
   \<and> finished (run [BeginTransaction [Fn 0], ExecDone 0 None, Handle ''commit'' [Fn 3],
                    Handle ''commit'' [Fn 2], ExecDone 0 None]) 0
   \<and> pending (run [BeginTransaction [Fn 0], ExecDone 0 None, Handle ''commit'' [Fn 3],
                   Handle ''commit'' [Fn 2], ExecDone 0 None])
      = [(''COMMIT;'', CommitH 0 (User 2))]
   \<and> step (run [BeginTransaction [Fn 0], ExecDone 0 None, Handle ''commit'' [Fn 3],
                Handle ''commit'' [Fn 2], ExecDone 0 None]) (ExecDone 0 (Some (DbFailure 4)))
      = (run [BeginTransaction [Fn 0], ExecDone 0 None, Handle ''commit'' [Fn 3],
              Handle ''commit'' [Fn 2], ExecDone 0 None])
          \<lparr>pending := remove_nth 0 (pending (run [BeginTransaction [Fn 0], ExecDone 0 None,
                         Handle ''commit'' [Fn 3], Handle ''commit'' [Fn 2], ExecDone 0 None])),
           trace := trace (run [BeginTransaction [Fn 0], ExecDone 0 None, Handle ''commit'' [Fn 3],
                         Handle ''commit'' [Fn 2], ExecDone 0 None])
                      @ [Called 2 (Some (DbFailure 4)) None]\<rparr>"
proof -
  let ?a = "run [BeginTransaction [Fn 0], ExecDone 0 None, Handle ''commit'' [Fn 2]]"
  let ?b = "run [Wrapped Db ''run'' [Val 7]]"
  let ?t = "run [Wrapped Db ''run'' [Val 7], BeginTransaction [Fn 0]]"
  let ?r = "run [BeginTransaction [Fn 0], ExecDone 0 None, Handle ''commit'' [Fn 2],
                 ExecDone 0 (Some (DbFailure 4))]"
  let ?e = "run [BeginTransaction [Fn 0], ExecDone 0 None, Handle ''commit'' [Fn 3],
                 Handle ''commit'' [Fn 2], ExecDone 0 None]"
  have fa: "db_rollback ?a = Some 0" "\<not> finished ?a 0"
    "pending ?a = [(''COMMIT;'', CommitH 0 (User 2))]"
    by (simp_all add: eval_defs)
  have ha: "db_rollback ?a = Some 0 \<and> \<not> finished ?a 0
      \<and> 0 < length (pending ?a) \<and> snd (pending ?a ! 0) = CommitH 0 (User 2)"
    by (simp add: fa)
  have hb: "lock ?b \<noteq> 0" by (simp add: eval_defs)
  have ft: "timers ?t = [BeginK 0]" by (simp add: eval_defs)
  have ht: "0 < length (timers ?t)" by (simp add: ft)
  have fr: "pending ?r = [(''ROLLBACK;'', RollbackH 0 (CommitFailed (User 2) (DbFailure 4)))]"
    "trace ?r = [Stmt ''BEGIN;'' 0, Called 0 None (Some Db), Stmt ''COMMIT;'' 0, Stmt ''ROLLBACK;'' 0]"
    "queue ?r = []"
    by (simp_all add: eval_defs)
  have hr: "0 < length (pending ?r)
      \<and> snd (pending ?r ! 0) = RollbackH 0 (CommitFailed (User 2) (DbFailure 4))"
    by (simp add: fr)
  have fe: "db_rollback ?e = Some 0" "finished ?e 0"
    "pending ?e = [(''COMMIT;'', CommitH 0 (User 2))]"
    by (simp_all add: eval_defs)
  have he: "db_rollback ?e = Some 0 \<and> finished ?e 0
      \<and> 0 < length (pending ?e) \<and> snd (pending ?e ! 0) = CommitH 0 (User 2)"
    by (simp add: fe)
  note th = failed_commit_rolls_back [where sa = ?a and n = 0 and i = 0 and c = 2
      and e = "DbFailure 4" and sb = ?b and st = ?t and t = 0 and sc = ?a
      and acts = "[BeginTransaction [Fn 0], ExecDone 0 None, Handle ''commit'' [Fn 2],
                   ExecDone 0 (Some (DbFailure 4))]"
      and j = 0 and ?e2.0 = None and se = ?e and i' = 0 and k = 0]
  have c1: "step ?a (ExecDone 0 (Some (DbFailure 4)))
      = check (?a\<lparr>pending := remove_nth 0 (pending ?a)\<rparr>)
          (RollbackK 0 (CommitFailed (User 2) (DbFailure 4)))"
    using th ha by blast
  have c2: "check ?b (RollbackK 0 (CommitFailed (User 2) (DbFailure 4)))
      = ?b\<lparr>timers := timers ?b @ [RollbackK 0 (CommitFailed (User 2) (DbFailure 4))]\<rparr>"
    using th hb by blast
  have c3: "step ?t (Tick 0) = check (?t\<lparr>timers := remove_nth 0 (timers ?t)\<rparr>) (timers ?t ! 0)"
    using th ht by blast
  have c5: "step ?r (ExecDone 0 None)
        = log (Called 2 (Some (DbFailure 4)) None)
            (runQueue ((?r\<lparr>pending := remove_nth 0 (pending ?r)\<rparr>)
                         \<lparr>finished := (finished ?r)(0 := True), currentTransaction := None\<rparr>))"
    "finished (step ?r (ExecDone 0 None)) 0"
    using th hr by blast+
  have c5t: "trace (step ?r (ExecDone 0 None))
      = [Stmt ''BEGIN;'' 0, Called 0 None (Some Db), Stmt ''COMMIT;'' 0, Stmt ''ROLLBACK;'' 0,
         Called 2 (Some (DbFailure 4)) None]"
    unfolding c5(1) by (simp add: log_def runQueue_Nil fr)
  have c6: "step ?e (ExecDone 0 (Some (DbFailure 4)))
      = ?e\<lparr>pending := remove_nth 0 (pending ?e),
            trace := trace ?e @ [Called 2 (Some (DbFailure 4)) None]\<rparr>"
    using th he by blast
  show ?thesis
    using fa c1 hb c2 ft c3 fr(1,2) c5(2) c5t fe c6 by blast
qed

text \<open>
  C5 as stated fails, in two ways. First: \<open>commit\<close> is called twice on an open
  transaction, the flag being unset at both calls (it is set only when a statement
  completes). The first COMMIT succeeds and finishes the transaction; the second fails.
  Its callback gets the COMMIT error, and no ROLLBACK is ever issued. Second:
  \<open>rollback\<close> is called twice on transaction 0 while two more transactions are
  requested. The first answer starts transaction 1, whose \<open>commit\<close> is then called; the
  second answer starts transaction 2, which takes over the handle. The COMMIT of
  transaction 1 fails, so \<open>tr.rollback\<close>, now that of transaction 2, is called: when its
  ROLLBACK is answered the commit's callback gets the COMMIT error while the flag of
  transaction 1 is still unset.
\<close>

theorem failed_commit_without_rollback:
  "\<not> finished (run [BeginTransaction [Fn 0], ExecDone 0 None, Handle ''commit'' [Fn 2]]) 0
   \<and> pending (run [BeginTransaction [Fn 0], ExecDone 0 None, Handle ''commit'' [Fn 2],
                   Handle ''commit'' [Fn 3], ExecDone 0 None])
       = [(''COMMIT;'', CommitH 0 (User 3))]
   \<and> trace (run [BeginTransaction [Fn 0], ExecDone 0 None, Handle ''commit'' [Fn 2],
                 Handle ''commit'' [Fn 3], ExecDone 0 None, ExecDone 0 (Some (DbFailure 4))])
       = [Stmt ''BEGIN;'' 0, Called 0 None (Some Db), Stmt ''COMMIT;'' 0, Stmt ''COMMIT;'' 0,
          Called 2 None None, Called 3 (Some (DbFailure 4)) None]
   \<and> pending (run [BeginTransaction [Fn 0], ExecDone 0 None, Handle ''commit'' [Fn 2],
                   Handle ''commit'' [Fn 3], ExecDone 0 None, ExecDone 0 (Some (DbFailure 4))]) = []
   \<and> timers (run [BeginTransaction [Fn 0], ExecDone 0 None, Handle ''commit'' [Fn 2],
                  Handle ''commit'' [Fn 3], ExecDone 0 None, ExecDone 0 (Some (DbFailure 4))]) = []
   \<and> pending (run [BeginTransaction [Fn 0], ExecDone 0 None, BeginTransaction [Fn 2],
                   BeginTransaction [Fn 3], Handle ''rollback'' [Fn 4], Handle ''rollback'' [Fn 5],
                   ExecDone 0 None, ExecDone 1 None, Handle ''commit'' [Fn 6], ExecDone 0 None])
       = [(''COMMIT;'', CommitH 1 (User 6)), (''BEGIN;'', BeginH 2)]
   \<and> trace (run [BeginTransaction [Fn 0], ExecDone 0 None, BeginTransaction [Fn 2],
                 BeginTransaction [Fn 3], Handle ''rollback'' [Fn 4], Handle ''rollback'' [Fn 5],
                 ExecDone 0 None, ExecDone 1 None, Handle ''commit'' [Fn 6], ExecDone 0 None,
                 ExecDone 0 (Some (DbFailure 9)), ExecDone 1 None])
       = [Stmt ''BEGIN;'' 0, Called 0 None (Some Db), Stmt ''ROLLBACK;'' 0, Stmt ''ROLLBACK;'' 0,
          Stmt ''BEGIN;'' 0, Called 4 None None, Called 2 None (Some Db), Stmt ''COMMIT;'' 0,
          Stmt ''BEGIN;'' 0, Called 5 None None, Stmt ''ROLLBACK;'' 0,
          Called 6 (Some (DbFailure 9)) None]
   \<and> \<not> finished (run [BeginTransaction [Fn 0], ExecDone 0 None, BeginTransaction [Fn 2],
                 BeginTransaction [Fn 3], Handle ''rollback'' [Fn 4], Handle ''rollback'' [Fn 5],
                 ExecDone 0 None, ExecDone 1 None, Handle ''commit'' [Fn 6], ExecDone 0 None,
                 ExecDone 0 (Some (DbFailure 9)), ExecDone 1 None]) 1"
  by (simp add: eval_defs)

section \<open>When \<open>currentTransaction\<close> is set\<close>




end
